theory Spec2Isabelle
  imports Main "HOL-Library.Word"
begin

unbundle bit_operations_syntax

section \<open>Data model of \<open>TCPPeer\<close> (src/overlay/TCPPeer.cpp)\<close>

text \<open>
  One \<open>TCPPeer\<close> object is a record of its mutable members together with a log of the
  calls it makes on its collaborators (socket, idle timer, overlay manager, metrics,
  message sink), in the order in which the code makes them. Every handler of the class
  is a function from the object before the call to the object after it. The clock is
  read through a parameter \<open>now\<close>.
\<close>

type_synonym byte = "8 word"
type_synonym frame = "byte list"

text \<open>Clock values and durations, in clock periods of one nanosecond.\<close>
type_synonym time = int

definition seconds :: "int \<Rightarrow> time" where
  "seconds n = n * 1000000000"

definition IO_TIMEOUT_SECONDS :: int where
  "IO_TIMEOUT_SECONDS = 30"

definition MAX_MESSAGE_SIZE :: int where
  "MAX_MESSAGE_SIZE = 0x1000000"

text \<open>
  Modelled from the spec: the enumeration \<open>Peer::PeerState\<close> and the member \<open>mState\<close> are
  declared in overlay/Peer.h, which is missing. The spec gives the connection the states
  Connecting, Connected and Closing, and a separate authentication state.
\<close>
datatype PeerState = CONNECTING | CONNECTED | CLOSING

datatype PeerRole = WE_CALLED_REMOTE | REMOTE_CALLED_US

datatype meter =
  MessageRead | MessageWrite | ByteRead | ByteWrite
  | ErrorRead | ErrorWrite | TimeoutRead | TimeoutWrite

text \<open>The calls on collaborators, as the code issues them.\<close>
datatype event =
  Mark meter nat               \<comment> \<open>\<open>Meter::Mark(n)\<close>\<close>
  | AsyncConnect               \<comment> \<open>\<open>socket->async_connect\<close>\<close>
  | AsyncReadHeader nat        \<comment> \<open>\<open>asio::async_read\<close> into \<open>mIncomingHeader\<close> of that size\<close>
  | BodyResize nat             \<comment> \<open>\<open>mIncomingBody.resize(n)\<close>\<close>
  | AsyncReadBody nat          \<comment> \<open>\<open>asio::async_read\<close> into \<open>mIncomingBody\<close> of that size\<close>
  | Enqueue frame              \<comment> \<open>\<open>mWriteQueue.emplace(buf)\<close>\<close>
  | AsyncWrite frame           \<comment> \<open>\<open>asio::async_write\<close> of the front buffer\<close>
  | Dequeue                    \<comment> \<open>\<open>mWriteQueue.pop()\<close>\<close>
  | TimerArm int               \<comment> \<open>\<open>expires_from_now(seconds n)\<close> and \<open>async_wait\<close>\<close>
  | TimerCancel                \<comment> \<open>\<open>mIdleTimer.cancel()\<close>\<close>
  | SocketCancel               \<comment> \<open>\<open>mSocket->cancel()\<close>\<close>
  | SocketClose                \<comment> \<open>\<open>mSocket->close()\<close>\<close>
  | DropPeer                   \<comment> \<open>\<open>getOverlayManager().dropPeer(self)\<close>\<close>
  | Deliver bool "byte list"   \<comment> \<open>\<open>Peer::recvMessage\<close> of the decoded body; the flag is \<open>isAuthenticated()\<close>\<close>
  | AssertFail                 \<comment> \<open>the \<open>assert\<close> of \<open>startRead\<close> found a non-empty header\<close>

text \<open>A read operation handed to the socket: its target buffer and size.\<close>
datatype read_op = RdHeader nat | RdBody nat

record peer =
  mRole :: PeerRole
  mState :: PeerState
  authenticated :: bool
  mLastRead :: time
  mLastWrite :: time
  mWriteQueue :: "frame list"
  mIncomingHeader :: "byte list"
  mIncomingBody :: "byte list"
  sockWrites :: "frame list"   \<comment> \<open>write operations issued and not yet completed\<close>
  sockReads :: "read_op list"  \<comment> \<open>read operations issued and not yet completed\<close>
  sockConnects :: nat          \<comment> \<open>connect operations issued and not yet completed\<close>
  timerWaits :: nat            \<comment> \<open>timer waits issued and not yet completed\<close>
  trace :: "event list"

definition emit :: "event \<Rightarrow> peer \<Rightarrow> peer" where
  "emit e s = s\<lparr>trace := trace s @ [e]\<rparr>"

text \<open>\<open>std::vector::resize\<close>: keep a prefix, pad with zero bytes.\<close>
definition resize_vec :: "nat \<Rightarrow> byte list \<Rightarrow> byte list" where
  "resize_vec n xs = take n xs @ replicate (n - length xs) 0"

text \<open>
  Modelled from the spec: \<open>Peer::shouldAbort\<close>, \<open>Peer::isConnected\<close> and
  \<open>Peer::isAuthenticated\<close> are defined in overlay/Peer.h and Peer.cpp, which are missing.
  The spec has completions "check state and no-op if already Closing"; the comments at the
  callers of \<open>isConnected\<close> exclude "errors during shutdown or connection".
\<close>
definition shouldAbort :: "peer \<Rightarrow> bool" where
  "shouldAbort s = (mState s = CLOSING)"

definition isConnected :: "peer \<Rightarrow> bool" where
  "isConnected s = (mState s = CONNECTED)"

definition isAuthenticated :: "peer \<Rightarrow> bool" where
  "isAuthenticated s = authenticated s"

section \<open>Teardown\<close>

text \<open>\<open>TCPPeer::drop\<close>. An exception of \<open>close()\<close> is caught and logged.\<close>
definition drop_peer :: "peer \<Rightarrow> peer" where
  "drop_peer s =
     (if mState s = CLOSING then s
      else emit SocketClose (emit DropPeer (emit TimerCancel (s\<lparr>mState := CLOSING\<rparr>))))"

text \<open>
  \<open>TCPPeer::~TCPPeer\<close>. \<open>mSocket\<close> is never reset in this file, so the test \<open>if (mSocket)\<close>
  succeeds. \<open>cancel()\<close> is compiled in unless \<open>_WIN32\<close> is defined; the flag \<open>cancelThrows\<close>
  says whether it raises \<open>asio::system_error\<close>, which the \<open>catch\<close> swallows and which
  skips the \<open>close()\<close> that follows it in the \<open>try\<close> block.
\<close>
definition destructor :: "bool \<Rightarrow> bool \<Rightarrow> peer \<Rightarrow> peer" where
  "destructor win32 cancelThrows s =
     (let s1 = emit TimerCancel s
      in if win32 then emit SocketClose s1
         else let s2 = emit SocketCancel s1
              in if cancelThrows then s2 else emit SocketClose s2)"

section \<open>Frame header\<close>

text \<open>
  The arithmetic of \<open>TCPPeer::getIncomingMsgLength\<close> on a 32-bit \<open>int\<close>; the header bytes
  are unsigned (\<open>uint8_t\<close>) and are widened without sign.
\<close>
definition msgLength :: "byte list \<Rightarrow> 32 word" where
  "msgLength h =
     (let l0 = (ucast (h ! 0) :: 32 word);
          l1 = l0 AND 0x7f;
          l2 = push_bit 8 l1;
          l3 = l2 OR ucast (h ! 1);
          l4 = push_bit 8 l3;
          l5 = l4 OR ucast (h ! 2);
          l6 = push_bit 8 l5;
          l7 = l6 OR ucast (h ! 3)
      in l7)"

definition unacceptable :: "32 word \<Rightarrow> bool" where
  "unacceptable l = (sint l < 0 \<or> sint l > MAX_MESSAGE_SIZE)"

text \<open>
  \<open>TCPPeer::getIncomingMsgLength\<close>: returns the length in every case, after marking the
  error meter and calling \<open>drop()\<close> when the length is unacceptable.
\<close>
definition getIncomingMsgLength :: "peer \<Rightarrow> int \<times> peer" where
  "getIncomingMsgLength s =
     (let l = msgLength (mIncomingHeader s)
      in if unacceptable l then (sint l, drop_peer (emit (Mark ErrorRead 1) s))
         else (sint l, s))"

text \<open>The 4-byte big-endian encoding of a length, most significant byte first.\<close>
definition encodeHeader :: "nat \<Rightarrow> byte list" where
  "encodeHeader L =
     [of_nat (L div 16777216 mod 256), of_nat (L div 65536 mod 256),
      of_nat (L div 256 mod 256), of_nat (L mod 256)]"

section \<open>Idle watchdog\<close>

text \<open>\<open>TCPPeer::startIdleTimer\<close>.\<close>
definition startIdleTimer :: "peer \<Rightarrow> peer" where
  "startIdleTimer s =
     (if shouldAbort s then s
      else emit (TimerArm IO_TIMEOUT_SECONDS) (s\<lparr>timerWaits := timerWaits s + 1\<rparr>))"

text \<open>\<open>TCPPeer::idleTimerExpired\<close>; \<open>err\<close> is the truth value of the error code.\<close>
definition idleTimerExpired :: "bool \<Rightarrow> time \<Rightarrow> peer \<Rightarrow> peer" where
  "idleTimerExpired err now s =
     (if \<not> err then
        (if now - mLastRead s > seconds IO_TIMEOUT_SECONDS
         then drop_peer (emit (Mark TimeoutRead 1) s)
         else if now - mLastWrite s > seconds IO_TIMEOUT_SECONDS
         then drop_peer (emit (Mark TimeoutWrite 1) s)
         else startIdleTimer s)
      else s)"

section \<open>Write pipeline\<close>

text \<open>\<open>TCPPeer::messageSender\<close>: the front buffer is peeked, not removed.\<close>
definition messageSender :: "time \<Rightarrow> peer \<Rightarrow> peer" where
  "messageSender now s =
     (if mWriteQueue s = [] then s
      else let s1 = s\<lparr>mLastWrite := now\<rparr>;
               buf = hd (mWriteQueue s1)
           in emit (AsyncWrite buf) (s1\<lparr>sockWrites := sockWrites s1 @ [buf]\<rparr>))"

text \<open>\<open>TCPPeer::sendMessage\<close>.\<close>
definition sendMessage :: "time \<Rightarrow> frame \<Rightarrow> peer \<Rightarrow> peer" where
  "sendMessage now xdrBytes s =
     (let wasEmpty = (mWriteQueue s = []);
          s1 = emit (Enqueue xdrBytes) (s\<lparr>mWriteQueue := mWriteQueue s @ [xdrBytes]\<rparr>)
      in if wasEmpty then messageSender now s1 else s1)"

text \<open>\<open>TCPPeer::writeHandler\<close>.\<close>
definition writeHandler :: "bool \<Rightarrow> nat \<Rightarrow> peer \<Rightarrow> peer" where
  "writeHandler err bytes_transferred s =
     (if err then drop_peer (if isConnected s then emit (Mark ErrorWrite 1) s else s)
      else emit (Mark ByteWrite bytes_transferred) (emit (Mark MessageWrite 1) s))"

text \<open>
  The completion handler that \<open>messageSender\<close> passes to \<open>async_write\<close>: \<open>writeHandler\<close>,
  then \<open>mWriteQueue.pop()\<close>, then \<open>messageSender()\<close>, whatever the error code. (\<open>pop\<close> of an
  empty queue is undefined in C++; the model leaves the queue empty, and
  \<open>reachable_write_inv\<close> below shows that the queue is not empty when a write completes.)
\<close>
definition writeCompletion :: "bool \<Rightarrow> nat \<Rightarrow> time \<Rightarrow> peer \<Rightarrow> peer" where
  "writeCompletion err n now s =
     (let s1 = writeHandler err n s;
          s2 = emit Dequeue (s1\<lparr>mWriteQueue := tl (mWriteQueue s1)\<rparr>)
      in messageSender now s2)"

section \<open>Read pipeline\<close>

text \<open>
  \<open>TCPPeer::startRead\<close>. The flag \<open>thr\<close> says whether starting the read raises
  \<open>asio::system_error\<close>, which the code catches and answers with \<open>drop()\<close>. The \<open>assert\<close> is
  logged and execution continues, as in a build with \<open>NDEBUG\<close>.
\<close>
definition startRead :: "bool \<Rightarrow> time \<Rightarrow> peer \<Rightarrow> peer" where
  "startRead thr now s =
     (if shouldAbort s then s
      else let s0 = (if mIncomingHeader s \<noteq> [] then emit AssertFail s else s);
               s1 = s0\<lparr>mLastRead := now, mIncomingHeader := resize_vec 4 (mIncomingHeader s0)\<rparr>
           in if thr then drop_peer s1
              else emit (AsyncReadHeader 4) (s1\<lparr>sockReads := sockReads s1 @ [RdHeader 4]\<rparr>))"

text \<open>\<open>TCPPeer::connected\<close>.\<close>
definition connected :: "bool \<Rightarrow> time \<Rightarrow> peer \<Rightarrow> peer" where
  "connected thr now s = startRead thr now s"

text \<open>
  \<open>TCPPeer::readHeaderHandler\<close>. The value of \<open>getIncomingMsgLength()\<close> goes to \<open>resize\<close>
  and the body read is issued, whether or not \<open>getIncomingMsgLength\<close> has dropped the peer.
\<close>
definition readHeaderHandler :: "bool \<Rightarrow> nat \<Rightarrow> peer \<Rightarrow> peer" where
  "readHeaderHandler err bytes_transferred s =
     (if \<not> err then
        (let s1 = emit (Mark ByteRead bytes_transferred) s;
             (len, s2) = getIncomingMsgLength s1;
             s3 = emit (BodyResize (nat len))
                    (s2\<lparr>mIncomingBody := resize_vec (nat len) (mIncomingBody s2)\<rparr>)
         in emit (AsyncReadBody (nat len)) (s3\<lparr>sockReads := sockReads s3 @ [RdBody (nat len)]\<rparr>))
      else drop_peer (if isConnected s then emit (Mark ErrorRead 1) s else s))"

text \<open>
  Modelled from the spec: \<open>Peer::recvMessage\<close>, the message sink, is defined in
  overlay/Peer.cpp, which is missing. The sink is an external collaborator that acts on
  the connection only through its public operations: it may enqueue replies, request a
  drop, and complete the authentication handshake.
\<close>
datatype sink_action = ActSend frame | ActDrop | ActAuth

text \<open>What decoding the body gives: a message for the sink, or \<open>xdr::xdr_runtime_error\<close>.\<close>
datatype sink_outcome = Dispatched "sink_action list" | XdrError

fun run_action :: "time \<Rightarrow> sink_action \<Rightarrow> peer \<Rightarrow> peer" where
  "run_action now (ActSend f) s = sendMessage now f s"
| "run_action now ActDrop s = drop_peer s"
| "run_action now ActAuth s = s\<lparr>authenticated := True\<rparr>"

fun run_actions :: "time \<Rightarrow> sink_action list \<Rightarrow> peer \<Rightarrow> peer" where
  "run_actions now [] s = s"
| "run_actions now (a # as) s = run_actions now as (run_action now a s)"

text \<open>\<open>TCPPeer::recvMessage\<close>.\<close>
definition recvMessage :: "sink_outcome \<Rightarrow> time \<Rightarrow> peer \<Rightarrow> peer" where
  "recvMessage outcome now s =
     (let s1 = emit (Mark MessageRead 1) s
      in case outcome of
           Dispatched acts \<Rightarrow>
             run_actions now acts (emit (Deliver (isAuthenticated s1) (mIncomingBody s1)) s1)
         | XdrError \<Rightarrow> drop_peer s1)"

text \<open>\<open>TCPPeer::readBodyHandler\<close>.\<close>
definition readBodyHandler ::
  "bool \<Rightarrow> nat \<Rightarrow> sink_outcome \<Rightarrow> bool \<Rightarrow> time \<Rightarrow> peer \<Rightarrow> peer" where
  "readBodyHandler err bytes_transferred outcome thr now s =
     (if \<not> err then
        startRead thr now (recvMessage outcome now (emit (Mark ByteRead bytes_transferred) s))
      else drop_peer (if isConnected s then emit (Mark ErrorRead 1) s else s))"

text \<open>The completion handler of the body read: clear the header, then \<open>readBodyHandler\<close>.\<close>
definition bodyCompletion ::
  "bool \<Rightarrow> nat \<Rightarrow> sink_outcome \<Rightarrow> bool \<Rightarrow> time \<Rightarrow> peer \<Rightarrow> peer" where
  "bodyCompletion err n outcome thr now s =
     readBodyHandler err n outcome thr now (s\<lparr>mIncomingHeader := []\<rparr>)"

section \<open>Construction\<close>

text \<open>
  The constructor. Modelled from the spec: the base constructor \<open>Peer::Peer\<close> in
  overlay/Peer.cpp is missing; by the spec an Acceptor is Connected at once and an
  Initiator is Connecting until its connect completes. Both timestamps are read from the
  clock at construction.
\<close>
definition ctor :: "PeerRole \<Rightarrow> time \<Rightarrow> peer" where
  "ctor role now =
     \<lparr>mRole = role,
      mState = (case role of WE_CALLED_REMOTE \<Rightarrow> CONNECTING | REMOTE_CALLED_US \<Rightarrow> CONNECTED),
      authenticated = False, mLastRead = now, mLastWrite = now, mWriteQueue = [],
      mIncomingHeader = [], mIncomingBody = [], sockWrites = [], sockReads = [],
      sockConnects = 0, timerWaits = 0, trace = []\<rparr>"

text \<open>\<open>TCPPeer::initiate\<close>.\<close>
definition initiate :: "time \<Rightarrow> peer" where
  "initiate now = emit AsyncConnect ((ctor WE_CALLED_REMOTE now)\<lparr>sockConnects := 1\<rparr>)"

text \<open>\<open>TCPPeer::accept\<close>.\<close>
definition accept :: "bool \<Rightarrow> time \<Rightarrow> peer" where
  "accept thr now = startRead thr now (ctor REMOTE_CALLED_US now)"

text \<open>
  Modelled from the spec: \<open>Peer::connectHandler\<close>, the completion of \<open>async_connect\<close>, is
  defined in overlay/Peer.cpp, which is missing. By the spec a failed connect is an I/O
  error, which drops the connection; a successful one enters Connected, unless the
  connection is already Closing (Closing is terminal, and a completion that finds the
  state Closing does nothing). The code of this file that runs on entering Connected is
  \<open>TCPPeer::connected\<close>.
\<close>
definition connectHandler :: "bool \<Rightarrow> bool \<Rightarrow> time \<Rightarrow> peer \<Rightarrow> peer" where
  "connectHandler err thr now s =
     (if err then drop_peer s
      else if mState s = CLOSING then s
      else connected thr now (s\<lparr>mState := CONNECTED\<rparr>))"

section \<open>The connection as a reactive system\<close>

text \<open>
  What can happen to a connection after its construction: the completion of an
  operation it has issued, or a call of one of its public operations. A completion is
  delivered only for an operation that is outstanding (oldest first); any other
  completion leaves the object as it is. A read that succeeds has filled its buffer:
  the header completion carries the four bytes, the body completion a payload of the
  size of the buffer.
\<close>
datatype input =
  ConnectDone bool bool time
  | HeaderDone bool nat byte byte byte byte
  | BodyDone bool nat "byte list" sink_outcome bool time
  | WriteDone bool nat time
  | TimerDone bool time
  | SendMessage frame time
  | Drop
  | StartIdleTimer

fun step :: "input \<Rightarrow> peer \<Rightarrow> peer" where
  "step (ConnectDone err thr now) s =
     (if sockConnects s = 0 then s
      else connectHandler err thr now (s\<lparr>sockConnects := sockConnects s - 1\<rparr>))"
| "step (HeaderDone err n b0 b1 b2 b3) s =
     (case sockReads s of
        RdHeader k # rs \<Rightarrow>
          readHeaderHandler err n
            (s\<lparr>sockReads := rs,
               mIncomingHeader := (if err then mIncomingHeader s else [b0, b1, b2, b3])\<rparr>)
      | _ \<Rightarrow> s)"
| "step (BodyDone err n payload outcome thr now) s =
     (case sockReads s of
        RdBody k # rs \<Rightarrow>
          if \<not> err \<and> length payload \<noteq> k then s
          else bodyCompletion err n outcome thr now
                 (s\<lparr>sockReads := rs,
                    mIncomingBody := (if err then mIncomingBody s else payload)\<rparr>)
      | _ \<Rightarrow> s)"
| "step (WriteDone err n now) s =
     (case sockWrites s of
        f # fs \<Rightarrow> writeCompletion err n now (s\<lparr>sockWrites := fs\<rparr>)
      | [] \<Rightarrow> s)"
| "step (TimerDone err now) s =
     (if timerWaits s = 0 then s
      else idleTimerExpired err now (s\<lparr>timerWaits := timerWaits s - 1\<rparr>))"
| "step (SendMessage f now) s = sendMessage now f s"
| "step Drop s = drop_peer s"
| "step StartIdleTimer s = startIdleTimer s"

fun run :: "input list \<Rightarrow> peer \<Rightarrow> peer" where
  "run [] s = s"
| "run (i # is) s = run is (step i s)"

text \<open>The two ways a connection comes into being.\<close>
datatype origin = Initiated time | Accepted bool time

fun start :: "origin \<Rightarrow> peer" where
  "start (Initiated now) = initiate now"
| "start (Accepted thr now) = accept thr now"

text \<open>How often a call occurs in a log.\<close>
definition calls :: "event \<Rightarrow> event list \<Rightarrow> nat" where
  "calls e es = length (filter (\<lambda>x. x = e) es)"

text \<open>The frames handed to \<open>async_write\<close>, in the order of the calls.\<close>
fun written :: "event list \<Rightarrow> frame list" where
  "written [] = []"
| "written (AsyncWrite f # es) = f # written es"
| "written (e # es) = written es"

text \<open>The frames put into the write queue, in the order of the calls.\<close>
fun enqueued :: "event list \<Rightarrow> frame list" where
  "enqueued [] = []"
| "enqueued (Enqueue f # es) = f # enqueued es"
| "enqueued (e # es) = enqueued es"

text \<open>
  The calls by which \<open>startRead\<close> and \<open>startIdleTimer\<close> start an operation: the header
  read that opens a read cycle, and the timer wait. (The body read of \<open>readHeaderHandler\<close>
  and the write of \<open>messageSender\<close> are not among them.)
\<close>
fun is_cycle_start :: "event \<Rightarrow> bool" where
  "is_cycle_start (AsyncReadHeader n) = True"
| "is_cycle_start (TimerArm n) = True"
| "is_cycle_start e = False"

definition cycle_starts :: "event list \<Rightarrow> event list" where
  "cycle_starts es = filter is_cycle_start es"

text \<open>
  The frames handed to \<open>sendMessage\<close> in the course of a history, read off the inputs and
  not off the log: the frame of each \<open>SendMessage\<close> input, and the frames the sink sends
  when a body completion delivers a message to it.
\<close>
fun sink_frames :: "sink_action list \<Rightarrow> frame list" where
  "sink_frames [] = []"
| "sink_frames (ActSend f # as) = f # sink_frames as"
| "sink_frames (a # as) = sink_frames as"

fun offered_by :: "input \<Rightarrow> peer \<Rightarrow> frame list" where
  "offered_by (SendMessage f now) s = [f]"
| "offered_by (BodyDone err n payload outcome thr now) s =
     (case sockReads s of
        RdBody k # rs \<Rightarrow>
          (case outcome of
             Dispatched acts \<Rightarrow> if \<not> err \<and> length payload = k then sink_frames acts else []
           | XdrError \<Rightarrow> [])
      | _ \<Rightarrow> [])"
| "offered_by i s = []"

fun offered :: "input list \<Rightarrow> peer \<Rightarrow> frame list" where
  "offered [] s = []"
| "offered (i # is) s = offered_by i s @ offered is (step i s)"

text \<open>
  The teardown has run exactly when the state is Closing: the registry has been notified
  once and the socket closed once, and neither has happened before.
\<close>
definition teardown_inv :: "peer \<Rightarrow> bool" where
  "teardown_inv s =
     (calls DropPeer (trace s) = (if mState s = CLOSING then 1 else 0)
      \<and> calls SocketClose (trace s) = (if mState s = CLOSING then 1 else 0))"

text \<open>
  The write discipline: the outstanding write, if any, is the only one and is the write
  of the frame at the front of the queue; the frames enqueued so far are those written
  so far followed by those waiting behind the front; every write that has completed
  has been followed by one \<open>pop\<close>.
\<close>
definition write_inv :: "peer \<Rightarrow> bool" where
  "write_inv s =
     (sockWrites s = take 1 (mWriteQueue s)
      \<and> enqueued (trace s) = written (trace s) @ drop 1 (mWriteQueue s)
      \<and> calls Dequeue (trace s) + length (sockWrites s) = length (written (trace s)))"

text \<open>The queue holds the frames enqueued so far without those popped.\<close>
definition queue_inv :: "peer \<Rightarrow> bool" where
  "queue_inv s =
     (mWriteQueue s = drop (calls Dequeue (trace s)) (enqueued (trace s))
      \<and> calls Dequeue (trace s) \<le> length (enqueued (trace s)))"

section \<open>Properties of the frame header\<close>

lemma encodeHeader_bits:
  "encodeHeader L =
     [of_nat (take_bit 8 (drop_bit 24 L)), of_nat (take_bit 8 (drop_bit 16 L)),
      of_nat (take_bit 8 (drop_bit 8 L)), of_nat (take_bit 8 L)]"
  by (simp add: encodeHeader_def take_bit_eq_mod drop_bit_eq_div)

lemma msgLength_bits:
  "msgLength [b0, b1, b2, b3] =
     push_bit 24 (ucast b0 AND 0x7f) OR push_bit 16 (ucast b1) OR push_bit 8 (ucast b2) OR ucast b3"
  by (simp add: msgLength_def Let_def push_bit_or or.assoc flip: push_bit_add)

lemma msgLength_encodeHeader:
  assumes "L < 2 ^ 31"
  shows "msgLength (encodeHeader L) = of_nat L"
proof (rule bit_word_eqI)
  fix n assume n: "n < LENGTH(32)"
  have m: "(0x7f :: 32 word) = mask 7" by (simp add: mask_eq_exp_minus_1)
  have "take_bit 31 L = L" by (rule take_bit_nat_eq_self) (use assms in simp)
  then have hi: "k < 31" if "bit L k" for k
    using that by (metis bit_take_bit_iff)
  consider "n < 8" | "8 \<le> n" "n < 16" | "16 \<le> n" "n < 24" | "24 \<le> n"
    by linarith
  then show "bit (msgLength (encodeHeader L)) n = bit (of_nat L :: 32 word) n"
  proof cases
    case 1 then show ?thesis using n by (auto simp: encodeHeader_bits msgLength_bits m bit_simps)
  next
    case 2 then show ?thesis using n by (auto simp: encodeHeader_bits msgLength_bits m bit_simps)
  next
    case 3 then show ?thesis using n by (auto simp: encodeHeader_bits msgLength_bits m bit_simps)
  next
    case 4 then show ?thesis using n hi[of n]
      by (auto simp: encodeHeader_bits msgLength_bits m bit_simps)
  qed
qed

lemma sint_msgLength_encodeHeader:
  assumes "L < 2 ^ 31"
  shows "sint (msgLength (encodeHeader L)) = int L"
proof -
  have "sint (of_nat L :: 32 word) = int L"
    using assms by (simp add: signed_of_nat signed_take_bit_int_eq_self)
  then show ?thesis by (simp add: msgLength_encodeHeader[OF assms])
qed

text \<open>
  C6. For every length \<open>L\<close> with \<open>0 \<le> L \<le> 16777216\<close>, \<open>getIncomingMsgLength\<close> on the
  4-byte big-endian encoding of \<open>L\<close> returns exactly \<open>L\<close> and leaves the connection as it
  was: no error is marked and \<open>drop()\<close> is not called.
\<close>
theorem header_roundtrip:
  assumes "L \<le> 16777216"
  shows "getIncomingMsgLength (s\<lparr>mIncomingHeader := encodeHeader L\<rparr>) =
           (int L, s\<lparr>mIncomingHeader := encodeHeader L\<rparr>)"
proof -
  have "L < 2 ^ 31" using assms by simp
  then have "sint (msgLength (encodeHeader L)) = int L"
    by (rule sint_msgLength_encodeHeader)
  then show ?thesis
    using assms by (simp add: getIncomingMsgLength_def unacceptable_def MAX_MESSAGE_SIZE_def)
qed

theorem header_roundtrip_witness:
  "(16777216 :: nat) \<le> 16777216 \<and> encodeHeader 16777216 = [1, 0, 0, 0] \<and>
   getIncomingMsgLength ((ctor REMOTE_CALLED_US 0)\<lparr>mIncomingHeader := encodeHeader 16777216\<rparr>) =
     (16777216, (ctor REMOTE_CALLED_US 0)\<lparr>mIncomingHeader := encodeHeader 16777216\<rparr>)"
  using header_roundtrip [of 16777216 "ctor REMOTE_CALLED_US 0"]
  by (simp add: encodeHeader_def)

lemmas handler_defs =
  emit_def shouldAbort_def isConnected_def isAuthenticated_def drop_peer_def
  startIdleTimer_def idleTimerExpired_def messageSender_def sendMessage_def
  writeHandler_def writeCompletion_def startRead_def connected_def
  readHeaderHandler_def recvMessage_def readBodyHandler_def bodyCompletion_def
  ctor_def initiate_def accept_def connectHandler_def getIncomingMsgLength_def

section \<open>Logs\<close>

lemma calls_append [simp]: "calls e (xs @ ys) = calls e xs + calls e ys"
  by (simp add: calls_def)

lemma calls_Nil [simp]: "calls e [] = 0"
  by (simp add: calls_def)

lemma calls_Cons [simp]: "calls e (x # xs) = (if x = e then 1 else 0) + calls e xs"
  by (simp add: calls_def)

lemma written_append [simp]: "written (xs @ ys) = written xs @ written ys"
  by (induction xs rule: written.induct) simp_all

lemma enqueued_append [simp]: "enqueued (xs @ ys) = enqueued xs @ enqueued ys"
  by (induction xs rule: enqueued.induct) simp_all

lemma cycle_starts_append [simp]: "cycle_starts (xs @ ys) = cycle_starts xs @ cycle_starts ys"
  by (simp add: cycle_starts_def)

section \<open>Teardown happens once\<close>

lemma teardown_inv_drop: "teardown_inv s \<Longrightarrow> teardown_inv (drop_peer s)"
  by (simp add: teardown_inv_def handler_defs)

lemma teardown_inv_sendMessage: "teardown_inv s \<Longrightarrow> teardown_inv (sendMessage now f s)"
  by (simp add: teardown_inv_def handler_defs Let_def)

lemma teardown_inv_run_actions:
  "teardown_inv s \<Longrightarrow> teardown_inv (run_actions now acts s)"
proof (induction acts arbitrary: s)
  case Nil
  then show ?case by simp
next
  case (Cons a acts)
  have "teardown_inv (run_action now a s)"
  proof (cases a)
    case (ActSend f)
    then show ?thesis using Cons.prems by (simp add: teardown_inv_sendMessage)
  next
    case ActDrop
    then show ?thesis using Cons.prems by (simp add: teardown_inv_drop)
  next
    case ActAuth
    then show ?thesis using Cons.prems by (simp add: teardown_inv_def)
  qed
  then show ?case by (simp add: Cons.IH)
qed

lemma teardown_inv_startRead: "teardown_inv s \<Longrightarrow> teardown_inv (startRead thr now s)"
  by (simp add: teardown_inv_def handler_defs Let_def)

lemma teardown_inv_recvMessage:
  "teardown_inv s \<Longrightarrow> teardown_inv (recvMessage outcome now s)"
proof (cases outcome)
  case (Dispatched acts)
  assume "teardown_inv s"
  then have "teardown_inv (emit (Deliver (isAuthenticated (emit (Mark MessageRead 1) s))
       (mIncomingBody (emit (Mark MessageRead 1) s))) (emit (Mark MessageRead 1) s))"
    by (simp add: teardown_inv_def emit_def)
  then show ?thesis
    using Dispatched by (simp add: recvMessage_def Let_def teardown_inv_run_actions)
next
  case XdrError
  assume "teardown_inv s"
  then show ?thesis
    using XdrError by (simp add: teardown_inv_def handler_defs Let_def)
qed

lemma teardown_inv_bodyCompletion:
  assumes "teardown_inv s"
  shows "teardown_inv (bodyCompletion err n outcome thr now s)"
proof (cases err)
  case True
  then show ?thesis using assms by (simp add: teardown_inv_def handler_defs)
next
  case False
  have "teardown_inv (emit (Mark ByteRead n) (s\<lparr>mIncomingHeader := []\<rparr>))"
    using assms by (simp add: teardown_inv_def emit_def)
  then show ?thesis
    using False
    by (simp add: bodyCompletion_def readBodyHandler_def teardown_inv_startRead
        teardown_inv_recvMessage)
qed

lemma teardown_inv_readHeaderHandler:
  "teardown_inv s \<Longrightarrow> teardown_inv (readHeaderHandler err n s)"
  by (simp add: teardown_inv_def handler_defs Let_def)

lemma teardown_inv_writeCompletion:
  "teardown_inv s \<Longrightarrow> teardown_inv (writeCompletion err n now s)"
  by (simp add: teardown_inv_def handler_defs Let_def)

lemma teardown_inv_idleTimerExpired:
  "teardown_inv s \<Longrightarrow> teardown_inv (idleTimerExpired err now s)"
  by (simp add: teardown_inv_def handler_defs)

lemma teardown_inv_connectHandler:
  "teardown_inv s \<Longrightarrow> teardown_inv (connectHandler err thr now s)"
  by (simp add: teardown_inv_def handler_defs Let_def)

lemma teardown_inv_fields [simp]:
  "teardown_inv (s\<lparr>sockConnects := c\<rparr>) = teardown_inv s"
  "teardown_inv (s\<lparr>sockReads := r\<rparr>) = teardown_inv s"
  "teardown_inv (s\<lparr>sockWrites := w\<rparr>) = teardown_inv s"
  "teardown_inv (s\<lparr>timerWaits := t\<rparr>) = teardown_inv s"
  "teardown_inv (s\<lparr>mIncomingHeader := h\<rparr>) = teardown_inv s"
  "teardown_inv (s\<lparr>mIncomingBody := b\<rparr>) = teardown_inv s"
  by (simp_all add: teardown_inv_def)

lemma teardown_inv_step: "teardown_inv s \<Longrightarrow> teardown_inv (step i s)"
proof (cases i)
  case (ConnectDone err thr now)
  assume "teardown_inv s"
  then show ?thesis using ConnectDone by (simp add: teardown_inv_connectHandler)
next
  case (HeaderDone err n b0 b1 b2 b3)
  assume "teardown_inv s"
  then show ?thesis using HeaderDone
    by (simp add: teardown_inv_readHeaderHandler split: list.splits read_op.splits)
next
  case (BodyDone err n payload outcome thr now)
  assume "teardown_inv s"
  then show ?thesis using BodyDone
    by (simp add: teardown_inv_bodyCompletion split: list.splits read_op.splits)
next
  case (WriteDone err n now)
  assume "teardown_inv s"
  then show ?thesis using WriteDone
    by (simp add: teardown_inv_writeCompletion split: list.splits)
next
  case (TimerDone err now)
  assume "teardown_inv s"
  then show ?thesis using TimerDone by (simp add: teardown_inv_idleTimerExpired)
next
  case (SendMessage f now)
  assume "teardown_inv s"
  then show ?thesis using SendMessage by (simp add: teardown_inv_sendMessage)
next
  case Drop
  assume "teardown_inv s"
  then show ?thesis using Drop by (simp add: teardown_inv_drop)
next
  case StartIdleTimer
  assume "teardown_inv s"
  then show ?thesis using StartIdleTimer by (simp add: teardown_inv_def handler_defs)
qed

lemma teardown_inv_run: "teardown_inv s \<Longrightarrow> teardown_inv (run ins s)"
  by (induction ins arbitrary: s) (simp_all add: teardown_inv_step)

lemma teardown_inv_start: "teardown_inv (start org)"
  by (cases org) (simp_all add: teardown_inv_def handler_defs Let_def)

lemma teardown_inv_reachable: "teardown_inv (run ins (start org))"
  by (rule teardown_inv_run [OF teardown_inv_start])

section \<open>The write discipline\<close>

lemma write_inv_fields [simp]:
  "write_inv (s\<lparr>sockConnects := c\<rparr>) = write_inv s"
  "write_inv (s\<lparr>sockReads := r\<rparr>) = write_inv s"
  "write_inv (s\<lparr>timerWaits := t\<rparr>) = write_inv s"
  "write_inv (s\<lparr>mIncomingHeader := h\<rparr>) = write_inv s"
  "write_inv (s\<lparr>mIncomingBody := b\<rparr>) = write_inv s"
  "write_inv (s\<lparr>authenticated := a\<rparr>) = write_inv s"
  by (simp_all add: write_inv_def)

lemma write_inv_drop: "write_inv s \<Longrightarrow> write_inv (drop_peer s)"
  by (auto simp: write_inv_def handler_defs)

lemma write_inv_sendMessage: "write_inv s \<Longrightarrow> write_inv (sendMessage now f s)"
  by (cases "mWriteQueue s") (auto simp: write_inv_def handler_defs Let_def)

lemma write_inv_writeCompletion:
  assumes "write_inv s" and "sockWrites s = f # fs"
  shows "write_inv (writeCompletion err n now (s\<lparr>sockWrites := fs\<rparr>))"
proof -
  from assms obtain q where q: "mWriteQueue s = f # q" and fs: "fs = []"
    by (cases "mWriteQueue s") (simp_all add: write_inv_def)
  show ?thesis
  proof (cases q)
    case Nil
    then show ?thesis using assms q fs
      by (auto simp: write_inv_def handler_defs Let_def)
  next
    case (Cons g q')
    then show ?thesis using assms q fs
      by (auto simp: write_inv_def handler_defs Let_def)
  qed
qed

lemma write_inv_run_actions:
  "write_inv s \<Longrightarrow> write_inv (run_actions now acts s)"
proof (induction acts arbitrary: s)
  case Nil
  then show ?case by simp
next
  case (Cons a acts)
  have "write_inv (run_action now a s)"
    using Cons.prems by (cases a) (simp_all add: write_inv_sendMessage write_inv_drop)
  then show ?case by (simp add: Cons.IH)
qed

lemma write_inv_startRead: "write_inv s \<Longrightarrow> write_inv (startRead thr now s)"
  by (auto simp: write_inv_def handler_defs Let_def)

lemma write_inv_recvMessage: "write_inv s \<Longrightarrow> write_inv (recvMessage outcome now s)"
proof (cases outcome)
  case (Dispatched acts)
  assume "write_inv s"
  then have "write_inv (emit (Deliver (isAuthenticated (emit (Mark MessageRead 1) s))
       (mIncomingBody (emit (Mark MessageRead 1) s))) (emit (Mark MessageRead 1) s))"
    by (auto simp: write_inv_def emit_def)
  then show ?thesis
    using Dispatched by (simp add: recvMessage_def Let_def write_inv_run_actions)
next
  case XdrError
  assume "write_inv s"
  then show ?thesis
    using XdrError by (auto simp: write_inv_def handler_defs Let_def)
qed

lemma write_inv_bodyCompletion:
  assumes "write_inv s"
  shows "write_inv (bodyCompletion err n outcome thr now s)"
proof (cases err)
  case True
  then show ?thesis using assms by (auto simp: write_inv_def handler_defs)
next
  case False
  have "write_inv (emit (Mark ByteRead n) (s\<lparr>mIncomingHeader := []\<rparr>))"
    using assms by (auto simp: write_inv_def emit_def)
  then show ?thesis
    using False
    by (simp add: bodyCompletion_def readBodyHandler_def write_inv_startRead
        write_inv_recvMessage)
qed

lemma write_inv_readHeaderHandler:
  "write_inv s \<Longrightarrow> write_inv (readHeaderHandler err n s)"
  by (auto simp: write_inv_def handler_defs Let_def)

lemma write_inv_idleTimerExpired:
  "write_inv s \<Longrightarrow> write_inv (idleTimerExpired err now s)"
  by (auto simp: write_inv_def handler_defs)

lemma write_inv_connectHandler:
  "write_inv s \<Longrightarrow> write_inv (connectHandler err thr now s)"
  by (auto simp: write_inv_def handler_defs Let_def)

lemma write_inv_step: "write_inv s \<Longrightarrow> write_inv (step i s)"
proof (cases i)
  case (ConnectDone err thr now)
  assume "write_inv s"
  then show ?thesis using ConnectDone by (simp add: write_inv_connectHandler)
next
  case (HeaderDone err n b0 b1 b2 b3)
  assume "write_inv s"
  then show ?thesis using HeaderDone
    by (simp add: write_inv_readHeaderHandler split: list.splits read_op.splits)
next
  case (BodyDone err n payload outcome thr now)
  assume "write_inv s"
  then show ?thesis using BodyDone
    by (simp add: write_inv_bodyCompletion split: list.splits read_op.splits)
next
  case (WriteDone err n now)
  assume "write_inv s"
  then show ?thesis using WriteDone
    by (simp add: write_inv_writeCompletion split: list.splits)
next
  case (TimerDone err now)
  assume "write_inv s"
  then show ?thesis using TimerDone by (simp add: write_inv_idleTimerExpired)
next
  case (SendMessage f now)
  assume "write_inv s"
  then show ?thesis using SendMessage by (simp add: write_inv_sendMessage)
next
  case Drop
  assume "write_inv s"
  then show ?thesis using Drop by (simp add: write_inv_drop)
next
  case StartIdleTimer
  assume "write_inv s"
  then show ?thesis using StartIdleTimer by (auto simp: write_inv_def handler_defs)
qed

lemma write_inv_run: "write_inv s \<Longrightarrow> write_inv (run ins s)"
  by (induction ins arbitrary: s) (simp_all add: write_inv_step)

lemma write_inv_start: "write_inv (start org)"
  by (cases org) (auto simp: write_inv_def handler_defs Let_def)

lemma reachable_write_inv: "write_inv (run ins (start org))"
  by (rule write_inv_run [OF write_inv_start])

section \<open>The queue and the frames handed to sendMessage\<close>

lemma queue_inv_fields [simp]:
  "queue_inv (s\<lparr>sockConnects := c\<rparr>) = queue_inv s"
  "queue_inv (s\<lparr>sockReads := r\<rparr>) = queue_inv s"
  "queue_inv (s\<lparr>sockWrites := w\<rparr>) = queue_inv s"
  "queue_inv (s\<lparr>timerWaits := t\<rparr>) = queue_inv s"
  "queue_inv (s\<lparr>mIncomingHeader := h\<rparr>) = queue_inv s"
  "queue_inv (s\<lparr>mIncomingBody := b\<rparr>) = queue_inv s"
  "queue_inv (s\<lparr>authenticated := a\<rparr>) = queue_inv s"
  "queue_inv (s\<lparr>mState := st\<rparr>) = queue_inv s"
  "queue_inv (s\<lparr>mLastRead := t1\<rparr>) = queue_inv s"
  "queue_inv (s\<lparr>mLastWrite := t2\<rparr>) = queue_inv s"
  by (simp_all add: queue_inv_def)

lemma queue_inv_emit:
  "enqueued [e] = [] \<Longrightarrow> e \<noteq> Dequeue \<Longrightarrow> queue_inv (emit e s) = queue_inv s"
  by (simp add: queue_inv_def emit_def)

lemma queue_inv_drop: "queue_inv s \<Longrightarrow> queue_inv (drop_peer s)"
  by (simp add: drop_peer_def queue_inv_emit)

lemma queue_inv_messageSender: "queue_inv (messageSender now s) = queue_inv s"
  by (simp add: messageSender_def Let_def queue_inv_emit)

lemma queue_inv_sendMessage:
  assumes "queue_inv s"
  shows "queue_inv (sendMessage now f s)"
proof -
  have "queue_inv (emit (Enqueue f) (s\<lparr>mWriteQueue := mWriteQueue s @ [f]\<rparr>))"
    using assms by (simp add: queue_inv_def emit_def)
  then show ?thesis by (auto simp: sendMessage_def Let_def queue_inv_messageSender)
qed

lemma queue_inv_writeHandler: "queue_inv (writeHandler err n s) = queue_inv s"
  by (simp add: writeHandler_def drop_peer_def isConnected_def emit_def queue_inv_def)

lemma queue_inv_pop:
  assumes "queue_inv s" and "mWriteQueue s \<noteq> []"
  shows "queue_inv (emit Dequeue (s\<lparr>mWriteQueue := tl (mWriteQueue s)\<rparr>))"
proof -
  let ?d = "calls Dequeue (trace s)" and ?e = "enqueued (trace s)"
  from assms have q: "mWriteQueue s = drop ?d ?e" and "?d \<le> length ?e"
    by (simp_all add: queue_inv_def)
  with assms(2) have lt: "?d < length ?e" by (cases "?d = length ?e") auto
  have "tl (drop ?d ?e) = drop (Suc ?d) ?e" by (simp add: drop_Suc tl_drop)
  then show ?thesis using q lt by (simp add: queue_inv_def emit_def)
qed


lemma queue_inv_writeCompletion:
  assumes "queue_inv s" and "mWriteQueue s \<noteq> []"
  shows "queue_inv (writeCompletion err n now s)"
proof -
  let ?s1 = "writeHandler err n s"
  have "queue_inv ?s1" using assms(1) by (simp add: queue_inv_writeHandler)
  moreover have "mWriteQueue ?s1 \<noteq> []"
    using assms(2) by (simp add: writeHandler_def drop_peer_def emit_def)
  ultimately have "queue_inv (emit Dequeue (?s1\<lparr>mWriteQueue := tl (mWriteQueue ?s1)\<rparr>))"
    by (rule queue_inv_pop)
  then show ?thesis by (simp add: writeCompletion_def Let_def queue_inv_messageSender)
qed

lemma queue_inv_run_actions:
  "queue_inv s \<Longrightarrow> queue_inv (run_actions now acts s)"
proof (induction acts arbitrary: s)
  case Nil
  then show ?case by simp
next
  case (Cons a acts)
  have "queue_inv (run_action now a s)"
    using Cons.prems by (cases a) (simp_all add: queue_inv_sendMessage queue_inv_drop)
  then show ?case by (simp add: Cons.IH)
qed

lemma queue_inv_startRead: "queue_inv s \<Longrightarrow> queue_inv (startRead thr now s)"
  by (simp add: startRead_def shouldAbort_def Let_def queue_inv_emit queue_inv_drop)

lemma queue_inv_recvMessage: "queue_inv s \<Longrightarrow> queue_inv (recvMessage outcome now s)"
  by (cases outcome)
    (simp_all add: recvMessage_def Let_def queue_inv_emit queue_inv_drop queue_inv_run_actions)

lemma queue_inv_bodyCompletion:
  "queue_inv s \<Longrightarrow> queue_inv (bodyCompletion err n outcome thr now s)"
  by (simp add: bodyCompletion_def readBodyHandler_def isConnected_def queue_inv_emit
      queue_inv_drop queue_inv_startRead queue_inv_recvMessage)

lemma queue_inv_readHeaderHandler:
  "queue_inv s \<Longrightarrow> queue_inv (readHeaderHandler err n s)"
  by (simp add: readHeaderHandler_def getIncomingMsgLength_def isConnected_def Let_def
      queue_inv_emit queue_inv_drop)

lemma queue_inv_idleTimerExpired:
  "queue_inv s \<Longrightarrow> queue_inv (idleTimerExpired err now s)"
  by (simp add: idleTimerExpired_def startIdleTimer_def shouldAbort_def queue_inv_emit
      queue_inv_drop)

lemma queue_inv_connectHandler:
  "queue_inv s \<Longrightarrow> queue_inv (connectHandler err thr now s)"
  by (simp add: connectHandler_def connected_def queue_inv_drop queue_inv_startRead)

lemma queue_inv_step:
  assumes "queue_inv s" and "write_inv s"
  shows "queue_inv (step i s)"
proof (cases i)
  case (ConnectDone err thr now)
  then show ?thesis using assms(1) by (simp add: queue_inv_connectHandler)
next
  case (HeaderDone err n b0 b1 b2 b3)
  then show ?thesis using assms(1)
    by (simp add: queue_inv_readHeaderHandler split: list.splits read_op.splits)
next
  case (BodyDone err n payload outcome thr now)
  then show ?thesis using assms(1)
    by (simp add: queue_inv_bodyCompletion split: list.splits read_op.splits)
next
  case (WriteDone err n now)
  show ?thesis
  proof (cases "sockWrites s")
    case Nil
    then show ?thesis using WriteDone assms(1) by simp
  next
    case (Cons f fs)
    then have "mWriteQueue s \<noteq> []" using assms(2) by (auto simp: write_inv_def)
    then have "queue_inv (writeCompletion err n now (s\<lparr>sockWrites := fs\<rparr>))"
      using assms(1) by (intro queue_inv_writeCompletion) simp_all
    then show ?thesis using WriteDone Cons by simp
  qed
next
  case (TimerDone err now)
  then show ?thesis using assms(1) by (simp add: queue_inv_idleTimerExpired)
next
  case (SendMessage f now)
  then show ?thesis using assms(1) by (simp add: queue_inv_sendMessage)
next
  case Drop
  then show ?thesis using assms(1) by (simp add: queue_inv_drop)
next
  case StartIdleTimer
  then show ?thesis using assms(1) by (simp add: startIdleTimer_def shouldAbort_def queue_inv_emit)
qed

lemma queue_inv_run:
  "queue_inv s \<Longrightarrow> write_inv s \<Longrightarrow> queue_inv (run ins s)"
  by (induction ins arbitrary: s) (simp_all add: queue_inv_step write_inv_step)

lemma queue_inv_start: "queue_inv (start org)"
  by (cases org) (simp_all add: queue_inv_def handler_defs Let_def)

lemma reachable_queue_inv: "queue_inv (run ins (start org))"
  by (rule queue_inv_run [OF queue_inv_start write_inv_start])

lemma enqueued_drop [simp]: "enqueued (trace (drop_peer s)) = enqueued (trace s)"
  by (simp add: drop_peer_def emit_def)

lemma enqueued_sendMessage:
  "enqueued (trace (sendMessage now f s)) = enqueued (trace s) @ [f]"
  by (simp add: sendMessage_def messageSender_def emit_def Let_def)

lemma enqueued_run_actions:
  "enqueued (trace (run_actions now acts s)) = enqueued (trace s) @ sink_frames acts"
proof (induction acts arbitrary: s)
  case Nil
  then show ?case by simp
next
  case (Cons a acts)
  then show ?case by (cases a) (simp_all add: enqueued_sendMessage)
qed

lemma enqueued_startRead [simp]:
  "enqueued (trace (startRead thr now s)) = enqueued (trace s)"
  by (simp add: startRead_def shouldAbort_def emit_def Let_def)

lemma enqueued_recvMessage:
  "enqueued (trace (recvMessage outcome now s)) =
     enqueued (trace s) @ (case outcome of Dispatched acts \<Rightarrow> sink_frames acts | XdrError \<Rightarrow> [])"
  by (cases outcome) (simp_all add: recvMessage_def Let_def enqueued_run_actions emit_def)

lemma enqueued_bodyCompletion:
  "enqueued (trace (bodyCompletion err n outcome thr now s)) =
     enqueued (trace s) @
       (case outcome of Dispatched acts \<Rightarrow> if \<not> err then sink_frames acts else []
        | XdrError \<Rightarrow> [])"
  by (cases outcome)
    (simp_all add: bodyCompletion_def readBodyHandler_def enqueued_recvMessage emit_def)

lemma enqueued_step:
  "enqueued (trace (step i s)) = enqueued (trace s) @ offered_by i s"
proof (cases i)
  case (BodyDone err n payload outcome thr now)
  then show ?thesis
    by (cases outcome)
      (auto simp: enqueued_bodyCompletion split: list.splits read_op.splits)
next
  case (SendMessage f now)
  then show ?thesis by (simp add: enqueued_sendMessage)
next
  case (HeaderDone err n b0 b1 b2 b3)
  then show ?thesis
    by (simp add: readHeaderHandler_def getIncomingMsgLength_def emit_def Let_def
        split: list.splits read_op.splits)
next
  case (WriteDone err n now)
  then show ?thesis
    by (simp add: writeCompletion_def writeHandler_def messageSender_def emit_def Let_def
        split: list.splits)
next
  case (ConnectDone err thr now)
  then show ?thesis by (simp add: connectHandler_def connected_def)
next
  case (TimerDone err now)
  then show ?thesis
    by (simp add: idleTimerExpired_def startIdleTimer_def emit_def)
next
  case Drop
  then show ?thesis by simp
next
  case StartIdleTimer
  then show ?thesis by (simp add: startIdleTimer_def emit_def)
qed

lemma enqueued_run:
  "enqueued (trace (run ins s)) = enqueued (trace s) @ offered ins s"
  by (induction ins arbitrary: s) (simp_all add: enqueued_step)

lemma enqueued_start: "enqueued (trace (start org)) = []"
  by (cases org) (simp_all add: handler_defs Let_def)

lemma enqueued_reachable:
  "enqueued (trace (run ins (start org))) = offered ins (start org)"
  by (simp add: enqueued_run enqueued_start)

section \<open>Closing is terminal\<close>

lemma closing_sendMessage:
  "mState (sendMessage now f s) = mState s \<and>
   cycle_starts (trace (sendMessage now f s)) = cycle_starts (trace s)"
  by (simp add: handler_defs Let_def cycle_starts_def)

lemma closing_run_actions:
  "mState s = CLOSING \<Longrightarrow>
   mState (run_actions now acts s) = CLOSING \<and>
   cycle_starts (trace (run_actions now acts s)) = cycle_starts (trace s)"
proof (induction acts arbitrary: s)
  case Nil
  then show ?case by simp
next
  case (Cons a acts)
  have "mState (run_action now a s) = CLOSING \<and>
        cycle_starts (trace (run_action now a s)) = cycle_starts (trace s)"
    using Cons.prems by (cases a) (simp_all add: closing_sendMessage drop_peer_def)
  then show ?case using Cons.IH [of "run_action now a s"] by simp
qed

lemma closing_recvMessage:
  assumes "mState s = CLOSING"
  shows "mState (recvMessage outcome now s) = CLOSING \<and>
         cycle_starts (trace (recvMessage outcome now s)) = cycle_starts (trace s)"
proof (cases outcome)
  case (Dispatched acts)
  let ?s1 = "emit (Deliver (isAuthenticated (emit (Mark MessageRead 1) s))
       (mIncomingBody (emit (Mark MessageRead 1) s))) (emit (Mark MessageRead 1) s)"
  have "mState ?s1 = CLOSING" and "cycle_starts (trace ?s1) = cycle_starts (trace s)"
    using assms by (simp_all add: emit_def cycle_starts_def)
  then show ?thesis
    using Dispatched closing_run_actions [of ?s1 now acts]
    by (simp add: recvMessage_def Let_def)
next
  case XdrError
  then show ?thesis using assms by (simp add: handler_defs Let_def cycle_starts_def)
qed

lemma closing_bodyCompletion:
  assumes "mState s = CLOSING"
  shows "mState (bodyCompletion err n outcome thr now s) = CLOSING \<and>
         cycle_starts (trace (bodyCompletion err n outcome thr now s)) = cycle_starts (trace s)"
proof (cases err)
  case True
  then show ?thesis using assms by (simp add: handler_defs)
next
  case False
  let ?s1 = "emit (Mark ByteRead n) (s\<lparr>mIncomingHeader := []\<rparr>)"
  have "mState ?s1 = CLOSING" and "cycle_starts (trace ?s1) = cycle_starts (trace s)"
    using assms by (simp_all add: emit_def cycle_starts_def)
  then show ?thesis
    using False closing_recvMessage [of ?s1 outcome now]
    by (simp add: bodyCompletion_def readBodyHandler_def startRead_def shouldAbort_def)
qed

lemma closing_step:
  assumes "mState s = CLOSING"
  shows "mState (step i s) = CLOSING \<and> cycle_starts (trace (step i s)) = cycle_starts (trace s)"
proof (cases i)
  case (BodyDone err n payload outcome thr now)
  then show ?thesis
    using assms by (simp add: closing_bodyCompletion split: list.splits read_op.splits)
next
  case (SendMessage f now)
  then show ?thesis using assms by (simp add: closing_sendMessage)
next
  case (HeaderDone err n b0 b1 b2 b3)
  then show ?thesis
    using assms by (simp add: handler_defs Let_def cycle_starts_def split: list.splits read_op.splits)
next
  case (WriteDone err n now)
  then show ?thesis
    using assms by (simp add: handler_defs Let_def cycle_starts_def split: list.splits)
qed (use assms in \<open>simp_all add: handler_defs Let_def cycle_starts_def\<close>)

lemma closing_run:
  "mState s = CLOSING \<Longrightarrow>
   mState (run ins s) = CLOSING \<and> cycle_starts (trace (run ins s)) = cycle_starts (trace s)"
proof (induction ins arbitrary: s)
  case Nil
  then show ?case by simp
next
  case (Cons i ins)
  then show ?case using closing_step [of s i] by simp
qed

text \<open>
  C10 fails as stated: operations are started on a connection that is Closing. After a
  drop, a header completion that arrives without error makes \<open>readHeaderHandler\<close> resize
  the body buffer and issue the body read, and \<open>sendMessage\<close> on the empty queue makes
  \<open>messageSender\<close> issue a write; neither looks at the state.
\<close>
theorem closing_operation_counterexample:
  "mState (run [Drop] (accept False 0)) = CLOSING
   \<and> trace (run [Drop, HeaderDone False 4 0 0 0 5] (accept False 0)) =
       [AsyncReadHeader 4, TimerCancel, DropPeer, SocketClose,
        Mark ByteRead 4, BodyResize 5, AsyncReadBody 5]
   \<and> trace (run [Drop, SendMessage [1] 0] (accept False 0)) =
       [AsyncReadHeader 4, TimerCancel, DropPeer, SocketClose, Enqueue [1], AsyncWrite [1]]"
  by (simp add: handler_defs Let_def msgLength_def unacceptable_def MAX_MESSAGE_SIZE_def)

text \<open>
  C10, amended. On a connection whose state is Closing, \<open>startRead\<close> and \<open>startIdleTimer\<close>
  return without any effect, and whatever happens to the connection afterwards, the
  state stays Closing and neither a header read nor a timer wait is started any more.
\<close>
theorem closing_starts_nothing:
  assumes "mState s = CLOSING"
  shows "startRead thr now s = s \<and> startIdleTimer s = s
         \<and> mState (run ins s) = CLOSING
         \<and> cycle_starts (trace (run ins s)) = cycle_starts (trace s)"
  using assms closing_run [of s ins] by (simp add: startRead_def startIdleTimer_def shouldAbort_def)

theorem closing_starts_nothing_witness:
  "mState (step Drop (accept False 0)) = CLOSING
   \<and> startRead False 5 (step Drop (accept False 0)) = step Drop (accept False 0)
   \<and> startIdleTimer (step Drop (accept False 0)) = step Drop (accept False 0)
   \<and> cycle_starts (trace (run [HeaderDone False 4 0 0 0 0, BodyDone False 0 [] (Dispatched []) False 7,
         TimerDone False 9, StartIdleTimer] (step Drop (accept False 0)))) = [AsyncReadHeader 4]"
proof -
  have c: "mState (step Drop (accept False 0)) = CLOSING"
    by (simp add: handler_defs Let_def)
  have "cycle_starts (trace (step Drop (accept False 0))) = [AsyncReadHeader 4]"
    by (simp add: handler_defs Let_def cycle_starts_def)
  then show ?thesis
    using c closing_starts_nothing [OF c, of False 5
        "[HeaderDone False 4 0 0 0 0, BodyDone False 0 [] (Dispatched []) False 7,
          TimerDone False 9, StartIdleTimer]"]
    by simp
qed

section \<open>Claims about teardown\<close>

text \<open>
  C2. \<open>drop()\<close> is idempotent. The first call on a connection that is not Closing sets
  the state to Closing, cancels the timer, notifies the registry once and closes the
  socket once; every further call changes nothing. Over any history of a connection
  (read, write and timer completions, messages sent, external drops), the registry has
  been notified exactly once and the socket closed exactly once if the state is Closing,
  and never otherwise.
\<close>
theorem drop_idempotent:
  "drop_peer (drop_peer s) = drop_peer s
   \<and> mState (drop_peer s) = CLOSING
   \<and> trace (drop_peer s) =
       trace s @ (if mState s = CLOSING then [] else [TimerCancel, DropPeer, SocketClose])
   \<and> calls DropPeer (trace (run ins (start org))) =
       (if mState (run ins (start org)) = CLOSING then 1 else 0)
   \<and> calls SocketClose (trace (run ins (start org))) =
       (if mState (run ins (start org)) = CLOSING then 1 else 0)"
  using teardown_inv_reachable [of ins org]
  by (simp add: teardown_inv_def drop_peer_def emit_def)

theorem drop_idempotent_witness:
  "mState (run [SendMessage [1] 0, StartIdleTimer, WriteDone True 0 1, HeaderDone True 0 0 0 0 0,
      TimerDone False 99000000000, Drop] (start (Accepted False 0))) = CLOSING
   \<and> calls DropPeer (trace (run [SendMessage [1] 0, StartIdleTimer, WriteDone True 0 1,
      HeaderDone True 0 0 0 0 0, TimerDone False 99000000000, Drop] (start (Accepted False 0)))) = 1
   \<and> calls SocketClose (trace (run [SendMessage [1] 0, StartIdleTimer, WriteDone True 0 1,
      HeaderDone True 0 0 0 0 0, TimerDone False 99000000000, Drop] (start (Accepted False 0)))) = 1"
proof -
  have "mState (run [SendMessage [1] 0, StartIdleTimer, WriteDone True 0 1, HeaderDone True 0 0 0 0 0,
          TimerDone False 99000000000, Drop] (start (Accepted False 0))) = CLOSING"
    by (simp add: handler_defs Let_def)
  then show ?thesis
    using drop_idempotent [of "accept False 0"
        "[SendMessage [1] 0, StartIdleTimer, WriteDone True 0 1, HeaderDone True 0 0 0 0 0,
          TimerDone False 99000000000, Drop]"
        "Accepted False 0"]
    by simp
qed

text \<open>
  C8 fails for a connection that is dropped and then destroyed, in a build for Windows
  (where the destructor does not call \<open>cancel()\<close>): \<open>drop()\<close> closes the socket and the
  destructor closes it again.
\<close>
theorem close_twice_counterexample:
  "calls SocketClose (trace (destructor True False (step Drop (accept False 0)))) = 2"
  by (simp add: handler_defs destructor_def Let_def)

text \<open>
  C8, amended. Over any history of a connection, \<open>close()\<close> has been called on the socket
  exactly once if the state is Closing and not at all otherwise; the destructor calls
  \<open>close()\<close> once more, whatever the state, unless its call of \<open>cancel()\<close> raises.
\<close>
theorem close_calls:
  "calls SocketClose (trace (run ins (start org))) =
     (if mState (run ins (start org)) = CLOSING then 1 else 0)
   \<and> calls SocketClose (trace (destructor win32 cancelThrows (run ins (start org)))) =
     (if mState (run ins (start org)) = CLOSING then 1 else 0)
       + (if win32 \<or> \<not> cancelThrows then 1 else 0)"
  using teardown_inv_reachable [of ins org]
  by (simp add: teardown_inv_def destructor_def emit_def Let_def)

theorem close_calls_witness:
  "calls SocketClose (trace (run [SendMessage [1] 0] (start (Accepted False 0)))) = 0
   \<and> calls SocketClose
        (trace (destructor False False (run [SendMessage [1] 0] (start (Accepted False 0))))) = 1
   \<and> calls SocketClose
        (trace (destructor False True (run [Drop] (start (Accepted False 0))))) = 1"
proof -
  have "mState (run [SendMessage [1] 0] (start (Accepted False 0))) = CONNECTED"
    and "mState (run [Drop] (start (Accepted False 0))) = CLOSING"
    by (simp_all add: handler_defs Let_def)
  then show ?thesis
    using close_calls [of "[SendMessage [1] 0]" "Accepted False 0" False False]
      close_calls [of "[Drop]" "Accepted False 0" False True]
    by simp
qed

section \<open>Claims about the write queue\<close>

text \<open>
  C3. Over any history of a connection, with the frames handed to \<open>sendMessage\<close> in that
  history taken in the order of the calls: at most one write is outstanding, and it is
  the write of the frame at the front of the queue, which is still in the queue; the
  frames put into the queue are exactly the frames handed to \<open>sendMessage\<close>, in order; the
  queue holds them without the ones popped; the frames handed to \<open>async_write\<close> so far
  are, in order, the first of them (as many as writes have completed, and one more while
  a write is outstanding), and followed by the frames waiting behind the front they are
  all of them; the queue has been popped once for each write that has completed, and
  not more often.
\<close>
theorem fifo_single_flight:
  "length (sockWrites (run ins (start org))) \<le> 1
   \<and> sockWrites (run ins (start org)) = take 1 (mWriteQueue (run ins (start org)))
   \<and> enqueued (trace (run ins (start org))) = offered ins (start org)
   \<and> mWriteQueue (run ins (start org)) =
       drop (calls Dequeue (trace (run ins (start org)))) (offered ins (start org))
   \<and> written (trace (run ins (start org))) =
       take (calls Dequeue (trace (run ins (start org)))
               + length (sockWrites (run ins (start org))))
         (offered ins (start org))
   \<and> offered ins (start org) =
       written (trace (run ins (start org))) @ drop 1 (mWriteQueue (run ins (start org)))
   \<and> calls Dequeue (trace (run ins (start org))) + length (sockWrites (run ins (start org))) =
       length (written (trace (run ins (start org))))"
proof -
  let ?t = "run ins (start org)" and ?fs = "offered ins (start org)"
  have w: "write_inv ?t" by (rule reachable_write_inv)
  have q: "queue_inv ?t" by (rule reachable_queue_inv)
  have e: "enqueued (trace ?t) = ?fs" by (rule enqueued_reachable)
  have sw: "sockWrites ?t = take 1 (mWriteQueue ?t)"
    and app: "?fs = written (trace ?t) @ drop 1 (mWriteQueue ?t)"
    and cnt: "calls Dequeue (trace ?t) + length (sockWrites ?t) = length (written (trace ?t))"
    using w e by (auto simp: write_inv_def)
  have qu: "mWriteQueue ?t = drop (calls Dequeue (trace ?t)) ?fs"
    using q e by (simp add: queue_inv_def)
  have "take (length (written (trace ?t))) ?fs = written (trace ?t)"
    using app by (metis append_eq_conv_conj)
  then have wr: "written (trace ?t) =
      take (calls Dequeue (trace ?t) + length (sockWrites ?t)) ?fs"
    using cnt by simp
  have "length (sockWrites ?t) \<le> 1" using sw by simp
  then show ?thesis using sw e qu wr app cnt by blast
qed

theorem fifo_single_flight_witness:
  "offered [SendMessage [10] 0, SendMessage [20, 21] 0, SendMessage [30] 1,
       WriteDone False 1 2, WriteDone False 2 3] (start (Accepted False 0)) = [[10], [20, 21], [30]]
   \<and> written (trace (run [SendMessage [10] 0, SendMessage [20, 21] 0, SendMessage [30] 1,
       WriteDone False 1 2, WriteDone False 2 3] (start (Accepted False 0)))) = [[10], [20, 21], [30]]
   \<and> sockWrites (run [SendMessage [10] 0, SendMessage [20, 21] 0, SendMessage [30] 1,
       WriteDone False 1 2, WriteDone False 2 3] (start (Accepted False 0))) = [[30]]
   \<and> mWriteQueue (run [SendMessage [10] 0, SendMessage [20, 21] 0, SendMessage [30] 1,
       WriteDone False 1 2, WriteDone False 2 3] (start (Accepted False 0))) = [[30]]
   \<and> calls Dequeue (trace (run [SendMessage [10] 0, SendMessage [20, 21] 0, SendMessage [30] 1,
       WriteDone False 1 2, WriteDone False 2 3] (start (Accepted False 0)))) = 2"
  using fifo_single_flight [of "[SendMessage [10] 0, SendMessage [20, 21] 0, SendMessage [30] 1,
       WriteDone False 1 2, WriteDone False 2 3]" "Accepted False 0"]
  by (simp add: handler_defs Let_def)

section \<open>Single handlers\<close>

text \<open>
  The sign bit of the decoded length is always clear, so the test \<open>length < 0\<close> of
  \<open>getIncomingMsgLength\<close> never succeeds and the conversion of the result to \<open>size_t\<close>
  keeps its value.
\<close>
lemma msgLength_top_bit_clear: "\<not> bit (msgLength h) 31"
proof -
  have m: "(0x7f :: 32 word) = mask 7" by (simp add: mask_eq_exp_minus_1)
  show ?thesis by (auto simp: msgLength_def Let_def m bit_simps dest: bit_imp_le_length)
qed

lemma msgLength_nonneg: "0 \<le> sint (msgLength h)"
  using bit_last_iff [of "msgLength h"] msgLength_top_bit_clear [of h] by simp

text \<open>
  What \<open>readHeaderHandler\<close> does with any unacceptable header on a connection that is not
  Closing: the peer is dropped and the sink is not called, but the body buffer is resized
  and the body read is issued after the teardown.
\<close>
lemma oversized_header_general:
  assumes "mState s \<noteq> CLOSING" and "unacceptable (msgLength (mIncomingHeader s))"
  shows "trace (readHeaderHandler False n s) =
           trace s @ [Mark ByteRead n, Mark ErrorRead 1, TimerCancel, DropPeer, SocketClose,
             BodyResize (nat (sint (msgLength (mIncomingHeader s)))),
             AsyncReadBody (nat (sint (msgLength (mIncomingHeader s))))]"
  using assms by (simp add: handler_defs Let_def)

lemma length_resize_vec: "length (resize_vec n xs) = n"
  by (simp add: resize_vec_def)

lemma msgLength_all_ones: "msgLength [0xFF, 0xFF, 0xFF, 0xFF] = 0x7FFFFFFF"
  by (simp add: msgLength_def)

text \<open>
  C1, at the header \<open>FF FF FF FF\<close> on a freshly accepted connection: the masked length
  2147483647 exceeds \<open>MAX_MESSAGE_SIZE\<close>; the code marks the error and drops the peer,
  and then still resizes the body buffer to 2147483647 bytes and issues the body read.
\<close>
theorem oversized_header_still_reads_body:
  "trace (step (HeaderDone False 4 0xFF 0xFF 0xFF 0xFF) (accept False 0)) =
     [AsyncReadHeader 4, Mark ByteRead 4, Mark ErrorRead 1, TimerCancel, DropPeer, SocketClose,
      BodyResize 2147483647, AsyncReadBody 2147483647]
   \<and> mState (step (HeaderDone False 4 0xFF 0xFF 0xFF 0xFF) (accept False 0)) = CLOSING
   \<and> sockReads (step (HeaderDone False 4 0xFF 0xFF 0xFF 0xFF) (accept False 0)) =
       [RdBody 2147483647]
   \<and> length (mIncomingBody (step (HeaderDone False 4 0xFF 0xFF 0xFF 0xFF) (accept False 0))) =
       2147483647"
  by (simp add: handler_defs msgLength_all_ones unacceptable_def MAX_MESSAGE_SIZE_def
      length_resize_vec)

text \<open>
  C4, with two frames queued and the write of the first completing with an error: the
  completion handler marks the error and drops the peer, and then pops the queue and
  starts the write of the second frame.
\<close>
theorem write_error_continues_draining:
  "trace (run [SendMessage [1] 0, SendMessage [2] 0, WriteDone True 0 1] (accept False 0)) =
     [AsyncReadHeader 4, Enqueue [1], AsyncWrite [1], Enqueue [2],
      Mark ErrorWrite 1, TimerCancel, DropPeer, SocketClose, Dequeue, AsyncWrite [2]]
   \<and> sockWrites (run [SendMessage [1] 0, SendMessage [2] 0, WriteDone True 0 1] (accept False 0)) =
       [[2]]"
  by (simp add: handler_defs Let_def)

text \<open>
  C7: \<open>accept\<close> issues the first header read and nothing else, and so does a successful
  connect completion after \<open>initiate\<close>; no timer wait is started on either path.
\<close>
theorem connected_without_watchdog:
  "trace (accept False now) = [AsyncReadHeader 4]
   \<and> timerWaits (accept False now) = 0
   \<and> trace (step (ConnectDone False False now') (initiate now)) = [AsyncConnect, AsyncReadHeader 4]
   \<and> timerWaits (step (ConnectDone False False now') (initiate now)) = 0"
  by (simp add: handler_defs Let_def)

text \<open>
  C5 fails on a connection that is already Closing: the tick finds both timestamps
  recent and arms nothing. Such a tick occurs in the history in which the timer is
  armed, the header read fails, which drops the peer, and the timer wait then completes
  without error.
\<close>
theorem watchdog_rearm_counterexample:
  "\<not> (0 - mLastRead (drop_peer (ctor REMOTE_CALLED_US 0)) > seconds IO_TIMEOUT_SECONDS)
   \<and> \<not> (0 - mLastWrite (drop_peer (ctor REMOTE_CALLED_US 0)) > seconds IO_TIMEOUT_SECONDS)
   \<and> idleTimerExpired False 0 (drop_peer (ctor REMOTE_CALLED_US 0)) =
       drop_peer (ctor REMOTE_CALLED_US 0)
   \<and> TimerArm IO_TIMEOUT_SECONDS \<notin>
       set (trace (idleTimerExpired False 0 (drop_peer (ctor REMOTE_CALLED_US 0))))
   \<and> trace (run [StartIdleTimer, HeaderDone True 0 0 0 0 0] (accept False 0)) =
       [AsyncReadHeader 4, TimerArm 30, Mark ErrorRead 1, TimerCancel, DropPeer, SocketClose]
   \<and> timerWaits (run [StartIdleTimer, HeaderDone True 0 0 0 0 0] (accept False 0)) = 1
   \<and> trace (run [StartIdleTimer, HeaderDone True 0 0 0 0 0, TimerDone False 30000000000]
        (accept False 0)) =
       [AsyncReadHeader 4, TimerArm 30, Mark ErrorRead 1, TimerCancel, DropPeer, SocketClose]"
  by (simp add: handler_defs Let_def seconds_def IO_TIMEOUT_SECONDS_def)

text \<open>
  C5, amended. A tick without timer error: if \<open>now - mLastRead\<close> exceeds 30 seconds the
  read-timeout meter is marked and \<open>drop()\<close> is called; otherwise, if \<open>now - mLastWrite\<close>
  exceeds 30 seconds the write-timeout meter is marked and \<open>drop()\<close> is called; otherwise
  the timer is armed for 30 more seconds, unless the connection is already Closing, in
  which case nothing happens.
\<close>
theorem watchdog_tick:
  "idleTimerExpired False now s =
     (if now - mLastRead s > 30 * 1000000000
      then drop_peer (s\<lparr>trace := trace s @ [Mark TimeoutRead 1]\<rparr>)
      else if now - mLastWrite s > 30 * 1000000000
      then drop_peer (s\<lparr>trace := trace s @ [Mark TimeoutWrite 1]\<rparr>)
      else if mState s = CLOSING then s
      else s\<lparr>timerWaits := timerWaits s + 1, trace := trace s @ [TimerArm 30]\<rparr>)"
  by (simp add: idleTimerExpired_def startIdleTimer_def shouldAbort_def emit_def seconds_def
      IO_TIMEOUT_SECONDS_def)

theorem watchdog_tick_witness:
  "trace (idleTimerExpired False 31000000000 (accept False 0)) =
       [AsyncReadHeader 4, Mark TimeoutRead 1, TimerCancel, DropPeer, SocketClose]
   \<and> trace (idleTimerExpired False 31000000000 ((accept False 0)\<lparr>mLastRead := 2000000000\<rparr>)) =
       [AsyncReadHeader 4, Mark TimeoutWrite 1, TimerCancel, DropPeer, SocketClose]
   \<and> trace (idleTimerExpired False 30000000000 (accept False 0)) =
       [AsyncReadHeader 4, TimerArm 30]"
  using watchdog_tick [of 31000000000 "accept False 0"]
    watchdog_tick [of 31000000000 "(accept False 0)\<lparr>mLastRead := 2000000000\<rparr>"]
    watchdog_tick [of 30000000000 "accept False 0"]
  by (simp add: handler_defs Let_def)

section \<open>Timestamps\<close>

lemma run_actions_keeps_read_side:
  "ActDrop \<notin> set acts \<Longrightarrow>
   mState (run_actions now acts s) = mState s \<and>
   mIncomingHeader (run_actions now acts s) = mIncomingHeader s"
proof (induction acts arbitrary: s)
  case Nil
  then show ?case by simp
next
  case (Cons a acts)
  have "mState (run_action now a s) = mState s \<and>
        mIncomingHeader (run_action now a s) = mIncomingHeader s"
    using Cons.prems by (cases a) (simp_all add: handler_defs Let_def)
  then show ?case using Cons by simp
qed

text \<open>
  C9 fails for the write that empties the queue: the frame is enqueued and its write
  started at time 0, the write completes successfully at time 7, and \<open>mLastWrite\<close> is
  still 0.
\<close>
theorem last_write_counterexample:
  "mLastWrite (run [SendMessage [1] 0, WriteDone False 1 7] (accept False 0)) = 0
   \<and> mLastWrite (run [SendMessage [1] 0, WriteDone False 1 7] (accept False 0)) \<noteq> 7"
  by (simp add: handler_defs Let_def)

text \<open>
  C9, amended. The timestamps are set when an operation is started, not when it
  completes. \<open>startRead\<close> on a connection that is not Closing sets \<open>mLastRead\<close> to the
  current time; a header completion leaves \<open>mLastRead\<close> as it was; a successful body
  completion on a connection that is not Closing, whose message the sink handles without
  dropping the connection, sets \<open>mLastRead\<close> to the current time. \<open>messageSender\<close> on a
  non-empty queue sets \<open>mLastWrite\<close> to the current time; a write completion sets
  \<open>mLastWrite\<close> to the current time if another frame is waiting behind the front of the
  queue, and leaves it as it was otherwise.
\<close>
theorem timestamps_set_at_start:
  "(mState s \<noteq> CLOSING \<longrightarrow> mLastRead (startRead thr now s) = now)
   \<and> mLastRead (readHeaderHandler err n s) = mLastRead s
   \<and> (mState s \<noteq> CLOSING \<and> ActDrop \<notin> set acts \<longrightarrow>
        mLastRead (bodyCompletion False n (Dispatched acts) thr now s) = now)
   \<and> (mWriteQueue s \<noteq> [] \<longrightarrow> mLastWrite (messageSender now s) = now)
   \<and> mLastWrite (writeCompletion err n now s) =
       (if 1 < length (mWriteQueue s) then now else mLastWrite s)"
proof -
  have rd: "mState s \<noteq> CLOSING \<longrightarrow> mLastRead (startRead thr now s) = now"
    by (simp add: handler_defs Let_def)
  have hd: "mLastRead (readHeaderHandler err n s) = mLastRead s"
    by (simp add: handler_defs Let_def)
  have bd: "mLastRead (bodyCompletion False n (Dispatched acts) thr now s) = now"
    if "mState s \<noteq> CLOSING" and "ActDrop \<notin> set acts"
  proof -
    let ?s1 = "emit (Deliver (authenticated s) (mIncomingBody s))
                 (emit (Mark MessageRead 1) (emit (Mark ByteRead n) (s\<lparr>mIncomingHeader := []\<rparr>)))"
    have "mState (run_actions now acts ?s1) = mState ?s1"
      using run_actions_keeps_read_side [OF that(2), of now ?s1] by simp
    then have "mState (run_actions now acts ?s1) \<noteq> CLOSING"
      using that(1) by (simp add: emit_def)
    then show ?thesis
      by (simp add: bodyCompletion_def readBodyHandler_def recvMessage_def startRead_def
          shouldAbort_def isAuthenticated_def drop_peer_def emit_def Let_def)
  qed
  have ms: "mWriteQueue s \<noteq> [] \<longrightarrow> mLastWrite (messageSender now s) = now"
    by (simp add: handler_defs Let_def)
  have wc: "mLastWrite (writeCompletion err n now s) =
       (if 1 < length (mWriteQueue s) then now else mLastWrite s)"
    by (cases "mWriteQueue s"; cases "tl (mWriteQueue s)") (simp_all add: handler_defs Let_def)
  show ?thesis using rd hd bd ms wc by blast
qed

theorem timestamps_set_at_start_witness:
  "mState (ctor REMOTE_CALLED_US 0) \<noteq> CLOSING
   \<and> mLastRead (startRead False 5 (ctor REMOTE_CALLED_US 0)) = 5
   \<and> mState (step (HeaderDone False 4 0 0 0 0) (accept False 0)) \<noteq> CLOSING
   \<and> ActDrop \<notin> set [ActSend [1]]
   \<and> mLastRead (bodyCompletion False 0 (Dispatched [ActSend [1]]) False 6
        (step (HeaderDone False 4 0 0 0 0) (accept False 0))) = 6
   \<and> mWriteQueue ((accept False 0)\<lparr>mWriteQueue := [[1]]\<rparr>) \<noteq> []
   \<and> mLastWrite (messageSender 9 ((accept False 0)\<lparr>mWriteQueue := [[1]]\<rparr>)) = 9"
  using timestamps_set_at_start [where s = "ctor REMOTE_CALLED_US 0" and thr = False and now = 5]
    timestamps_set_at_start [where s = "step (HeaderDone False 4 0 0 0 0) (accept False 0)"
      and thr = False and now = 6 and n = 0 and acts = "[ActSend [1]]"]
    timestamps_set_at_start [where s = "(accept False 0)\<lparr>mWriteQueue := [[1]]\<rparr>" and now = 9]
  by (simp add: handler_defs Let_def msgLength_def unacceptable_def MAX_MESSAGE_SIZE_def)

end
